theory Spec2Isabelle
  imports Main
begin

section \<open>Data model of the streaming hook (src/hooks/useWsStream.ts)\<close>

text \<open>
  The TypeScript interface \<open>ChatMessage\<close>. An optional field is an \<open>option\<close>: \<open>None\<close> is
  \<open>undefined\<close>. The field \<open>originalPrompt\<close> is the one the message bubble reads
  (\<open>Message.originalPrompt\<close> in message-bubble.tsx); the hook never writes it, and an
  object spread \<open>{...msg, ...}\<close> carries it along. Timestamps are the milliseconds of
  \<open>Date.now()\<close>, natural numbers.
\<close>

record ChatMessage =
  id_msg :: string
  isUser :: bool
  content :: string
  isStreaming :: "bool option"
  isWaiting :: "bool option"
  startTime :: "nat option"
  endTime :: "nat option"
  agent :: "string option"
  isError :: "bool option"
  originalPrompt :: "string option"

text \<open>JavaScript truthiness of the optional fields the handlers test.\<close>

definition truthy :: "bool option \<Rightarrow> bool" where
  "truthy b = (b = Some True)"

definition truthy_num :: "nat option \<Rightarrow> bool" where
  "truthy_num n = (case n of None \<Rightarrow> False | Some k \<Rightarrow> k \<noteq> 0)"

definition truthy_str :: "string option \<Rightarrow> bool" where
  "truthy_str s = (case s of None \<Rightarrow> False | Some t \<Rightarrow> t \<noteq> [])"

text \<open>
  The state of a message as the specification names it, read from the flags the way the
  handlers test them.
\<close>

definition waiting :: "ChatMessage \<Rightarrow> bool" where
  "waiting m = truthy (isWaiting m)"

definition streaming :: "ChatMessage \<Rightarrow> bool" where
  "streaming m = truthy (isStreaming m)"

definition errored :: "ChatMessage \<Rightarrow> bool" where
  "errored m = truthy (isError m)"

definition final :: "ChatMessage \<Rightarrow> bool" where
  "final m = (\<not> waiting m \<and> \<not> streaming m \<and> \<not> errored m)"

text \<open>
  The inbound events, one constructor per interface of the union \<open>WsEvent\<close>, with the
  fields the interface declares, in its order; \<open>Other\<close> is every other tag, with its
  \<open>content\<close> field when it has one.
\<close>

datatype WsEvent =
    AgentStart string string
  | AgentOutput string string
  | FinalAnswer string
  | ErrorEvent string
  | SystemAbort string
  | ThoughtsAndTasks string "(string \<times> string) list"
  | TaskDelegated string string
  | LoopRetry string
  | SimplificationComplete string string
  | ValidationScore string int
  | Other "string option"

datatype conn_status = Idle | Connecting | StreamingStatus | ErrorStatus

datatype ready_state = CONNECTING | OPEN | CLOSED

text \<open>
  A \<open>WebSocket\<close> object made by \<open>connect\<close>: its ready state, the \<open>initialPrompt\<close> its
  \<open>onopen\<close> closure holds, and the prompts of the frames \<open>{"prompt": p}\<close> sent on it,
  oldest first.
\<close>

record socket =
  readyState :: ready_state
  initialPrompt :: "string option"
  sent :: "string list"

text \<open>
  The state of one hook instance: the three \<open>useState\<close> cells, the id counter, every
  socket created so far and \<open>wsRef.current\<close> as an index into them. The timer handle
  \<open>typingRef\<close> only decides when a reveal tick fires; a tick is a step of its own below.
  Handlers, sends and ticks run one at a time, and the state updaters a handler queues are
  applied in the order it queues them.
\<close>

record hook =
  status :: conn_status
  messages :: "ChatMessage list"
  streamQueue :: string
  idCounter :: nat
  sockets :: "socket list"
  wsRef :: "nat option"

text \<open>
  What a handler reads from outside during one run: the clock \<open>Date.now()\<close> and the five
  characters \<open>Math.random().toString(36).substring(2, 7)\<close>. All readings of the clock
  within one run of a handler give the same \<open>now\<close>.
\<close>

record env =
  now :: nat
  rnd :: string

definition initial :: hook where
  "initial = \<lparr> status = Idle, messages = [], streamQueue = [], idCounter = 0,
               sockets = [], wsRef = None \<rparr>"

section \<open>Identifiers\<close>

definition digit :: "nat \<Rightarrow> char" where
  "digit d = char_of (48 + d)"

fun show_nat :: "nat \<Rightarrow> string" where
  "show_nat n = (if n < 10 then [digit n] else show_nat (n div 10) @ [digit (n mod 10)])"

declare show_nat.simps [simp del]

text \<open>\<open>generateUniqueId\<close>: bumps the counter and returns the identifier with it.\<close>

definition generateUniqueId :: "env \<Rightarrow> string \<Rightarrow> hook \<Rightarrow> string \<times> hook" where
  "generateUniqueId e prefix s =
     (let c = idCounter s + 1
      in (prefix @ ''-'' @ show_nat (now e) @ ''-'' @ show_nat c @ ''-'' @ rnd e,
          s\<lparr>idCounter := c\<rparr>))"

section \<open>The event interpreter (\<open>ws.onmessage\<close>)\<close>

definition specialAgents :: "string list" where
  "specialAgents = [''Architect Agent'', ''Task Agents'', ''Simplifier Agent'',
                    ''Validator Agent'', ''Final Synthesizer'']"

definition agentNameMap :: "string \<Rightarrow> string option" where
  "agentNameMap = map_of [(''Architect Agent'', ''Eleanor''), (''Task Agents'', ''Layla''),
                          (''Simplifier Agent'', ''Nova''), (''Validator Agent'', ''Isaac''),
                          (''Final Synthesizer'', ''Final Synthesizer'')]"

text \<open>\<open>agentNameMap[a] || a\<close>.\<close>

definition display_name :: "string \<Rightarrow> string" where
  "display_name a = (if truthy_str (agentNameMap a) then the (agentNameMap a) else a)"

text \<open>The guard of the \<open>agent_start\<close> case.\<close>

definition shown_start :: "string \<Rightarrow> bool" where
  "shown_start a = (a \<in> set specialAgents \<and> a \<noteq> ''Task Agents'' \<and> a \<noteq> ''Architect Agent''
                     \<and> a \<noteq> ''Validator Agent'')"

text \<open>An object literal with only \<open>id\<close>, \<open>isUser\<close> and \<open>content\<close>.\<close>

definition plain :: "string \<Rightarrow> bool \<Rightarrow> string \<Rightarrow> ChatMessage" where
  "plain i u c = \<lparr> id_msg = i, isUser = u, content = c, isStreaming = None, isWaiting = None,
                   startTime = None, endTime = None, agent = None, isError = None,
                   originalPrompt = None \<rparr>"

definition push :: "ChatMessage \<Rightarrow> hook \<Rightarrow> hook" where
  "push m s = s\<lparr>messages := messages s @ [m]\<rparr>"

text \<open>\<open>updated[updated.length - 1] = m\<close> on a non-empty array.\<close>

definition set_last :: "ChatMessage \<Rightarrow> hook \<Rightarrow> hook" where
  "set_last m s = s\<lparr>messages := (messages s)[length (messages s) - 1 := m]\<rparr>"

definition waiting_msg :: "env \<Rightarrow> string \<Rightarrow> string \<Rightarrow> ChatMessage" where
  "waiting_msg e i a = (plain i False [])\<lparr>agent := Some a, isWaiting := Some True,
                                           startTime := Some (now e)\<rparr>"

text \<open>The callback of the \<open>agent_output\<close> map.\<close>

definition output_msg :: "env \<Rightarrow> string \<Rightarrow> string \<Rightarrow> ChatMessage \<Rightarrow> ChatMessage" where
  "output_msg e a c msg =
     (if agent msg = Some a \<and> truthy (isWaiting msg)
      then msg\<lparr>content := c, isWaiting := Some False, endTime := Some (now e)\<rparr>
      else msg)"

fun handle :: "env \<Rightarrow> WsEvent \<Rightarrow> hook \<Rightarrow> hook" where
  "handle e (AgentStart a st) s =
     (if shown_start a
      then (let (i, s') = generateUniqueId e a s
            in push (waiting_msg e i (display_name a)) s')
      else s)"
| "handle e (ThoughtsAndTasks c ts) s = s"
| "handle e (TaskDelegated a t) s =
     (let (i, s') = generateUniqueId e (''task-'' @ a) s
      in push (waiting_msg e i a) s')"
| "handle e (AgentOutput a c) s = s\<lparr>messages := map (output_msg e a c) (messages s)\<rparr>"
| "handle e (SimplificationComplete a c) s =
     (if messages s \<noteq> [] \<and> truthy (isWaiting (last (messages s)))
         \<and> agent (last (messages s)) = agentNameMap ''Simplifier Agent''
      then set_last ((last (messages s))\<lparr>content := c, isWaiting := Some False,
                                          endTime := Some (now e)\<rparr>) s
      else (let (i, s') = generateUniqueId e ''simplification'' s
            in push ((plain i False c)\<lparr>agent := agentNameMap ''Simplifier Agent''\<rparr>) s'))"
| "handle e (ValidationScore a n) s = s"
| "handle e (LoopRetry m) s = s"
| "handle e (FinalAnswer c) s =
     (let s1 =
        (if messages s \<noteq> []
            \<and> (truthy (isStreaming (last (messages s))) \<or> truthy (isWaiting (last (messages s))))
         then set_last ((last (messages s))\<lparr>content := c, isStreaming := Some False,
                 isWaiting := Some False,
                 endTime := (if truthy_num (startTime (last (messages s)))
                             then Some (now e) else None)\<rparr>) s
         else (let (i, s') = generateUniqueId e ''final'' s
               in push ((plain i False c)\<lparr>agent := agentNameMap ''Final Synthesizer'',
                                           isStreaming := Some False\<rparr>) s'))
      in s1\<lparr>streamQueue := []\<rparr>)"
| "handle e (SystemAbort m) s =
     (let (i, s') = generateUniqueId e ''error'' (s\<lparr>status := ErrorStatus\<rparr>)
      in push ((plain i False m)\<lparr>isError := Some True\<rparr>) s')"
| "handle e (ErrorEvent m) s =
     (let (i, s') = generateUniqueId e ''error'' (s\<lparr>status := ErrorStatus\<rparr>)
      in push ((plain i False m)\<lparr>isError := Some True\<rparr>) s')"
| "handle e (Other c) s =
     (let s1 =
        (if messages s \<noteq> [] \<and> truthy (isWaiting (last (messages s)))
         then set_last ((last (messages s))\<lparr>content := [], isWaiting := Some False,
                                             isStreaming := Some True\<rparr>) s
         else if messages s = [] \<or> isUser (last (messages s))
                 \<or> (\<not> truthy (isStreaming (last (messages s)))
                     \<and> \<not> truthy (isWaiting (last (messages s))))
         then (let (i, s') = generateUniqueId e ''streaming'' s
               in push ((plain i False [])\<lparr>isStreaming := Some True,
                                            startTime := Some (now e)\<rparr>) s')
         else s)
      in s1\<lparr>streamQueue := streamQueue s1 @ (if truthy_str c then the c else [])\<rparr>)"

declare handle.simps [simp del]

section \<open>The reveal tick (the interval callback of the typing effect)\<close>

definition tick :: "hook \<Rightarrow> hook" where
  "tick s =
     (case streamQueue s of
        [] \<Rightarrow> s
      | nextChar # newQueue \<Rightarrow>
          (if messages s \<noteq> [] \<and> truthy (isStreaming (last (messages s)))
           then s\<lparr>messages := butlast (messages s)
                     @ [(last (messages s))\<lparr>content := content (last (messages s)) @ [nextChar]\<rparr>],
                  streamQueue := newQueue\<rparr>
           else s\<lparr>streamQueue := newQueue\<rparr>))"

fun ticks :: "nat \<Rightarrow> hook \<Rightarrow> hook" where
  "ticks 0 s = s"
| "ticks (Suc n) s = ticks n (tick s)"

section \<open>The connection manager\<close>

text \<open>\<open>connect(initialPrompt)\<close>: a new socket becomes \<open>wsRef.current\<close>.\<close>

definition connect :: "string option \<Rightarrow> hook \<Rightarrow> hook" where
  "connect p s =
     s\<lparr>status := Connecting,
       sockets := sockets s @ [\<lparr>readyState = CONNECTING, initialPrompt = p, sent = []\<rparr>],
       wsRef := Some (length (sockets s))\<rparr>"

text \<open>\<open>ws.send\<close> on the socket with index \<open>k\<close>.\<close>

definition ws_send :: "nat \<Rightarrow> string \<Rightarrow> hook \<Rightarrow> hook" where
  "ws_send k p s = s\<lparr>sockets := (sockets s)[k := (sockets s ! k)\<lparr>sent := sent (sockets s ! k) @ [p]\<rparr>]\<rparr>"

text \<open>\<open>ws.onopen\<close> of socket \<open>k\<close>; the browser fires it once, on a connecting socket.\<close>

definition on_open :: "nat \<Rightarrow> hook \<Rightarrow> hook" where
  "on_open k s =
     (if k < length (sockets s) \<and> readyState (sockets s ! k) = CONNECTING
      then (let s1 = s\<lparr>status := StreamingStatus,
                       sockets := (sockets s)[k := (sockets s ! k)\<lparr>readyState := OPEN\<rparr>]\<rparr>
            in if truthy_str (initialPrompt (sockets s ! k))
               then ws_send k (the (initialPrompt (sockets s ! k))) s1
               else s1)
      else s)"

text \<open>\<open>ws.onclose\<close> and \<open>ws.onerror\<close> of socket \<open>k\<close>.\<close>

definition on_close :: "nat \<Rightarrow> hook \<Rightarrow> hook" where
  "on_close k s =
     (if k < length (sockets s) \<and> readyState (sockets s ! k) \<noteq> CLOSED
      then s\<lparr>status := Idle, sockets := (sockets s)[k := (sockets s ! k)\<lparr>readyState := CLOSED\<rparr>]\<rparr>
      else s)"

definition on_error :: "nat \<Rightarrow> hook \<Rightarrow> hook" where
  "on_error k s = (if k < length (sockets s) then s\<lparr>status := ErrorStatus\<rparr> else s)"

text \<open>\<open>wsRef.current && wsRef.current.readyState === WebSocket.OPEN\<close>.\<close>

definition channel_open :: "hook \<Rightarrow> bool" where
  "channel_open s =
     (case wsRef s of None \<Rightarrow> False
      | Some k \<Rightarrow> k < length (sockets s) \<and> readyState (sockets s ! k) = OPEN)"

definition sendMessage :: "env \<Rightarrow> string \<Rightarrow> hook \<Rightarrow> hook" where
  "sendMessage e prompt s =
     (let (i, s') = generateUniqueId e ''user'' s;
          s1 = push (plain i True prompt) s'
      in if channel_open s1 then ws_send (the (wsRef s1)) prompt s1
         else connect (Some prompt) s1)"

text \<open>Everything that can happen to a hook instance, and a run of such steps.\<close>

datatype action =
    Recv WsEvent
  | Tick
  | Send string
  | Opened nat
  | Closed nat
  | Failed nat

fun step :: "env \<Rightarrow> action \<Rightarrow> hook \<Rightarrow> hook" where
  "step e (Recv ev) s = handle e ev s"
| "step e Tick s = tick s"
| "step e (Send p) s = sendMessage e p s"
| "step e (Opened k) s = on_open k s"
| "step e (Closed k) s = on_close k s"
| "step e (Failed k) s = on_error k s"

fun run :: "(env \<times> action) list \<Rightarrow> hook \<Rightarrow> hook" where
  "run [] s = s"
| "run ((e, a) # rest) s = run rest (step e a s)"

section \<open>The history client (src/lib/apiClient.ts) and the conversation query\<close>

datatype http_method = GET | POST

record user =
  id_user :: "string option"

record session =
  user :: "user option"

text \<open>\<open>session?.user?.id\<close>, for a session that may be \<open>null\<close>.\<close>

definition session_user_id :: "session option \<Rightarrow> string option" where
  "session_user_id ss =
     (case ss of None \<Rightarrow> None
      | Some x \<Rightarrow> (case user x of None \<Rightarrow> None | Some u \<Rightarrow> id_user u))"

text \<open>The \<open>url\<close> and \<open>RequestInit\<close> handed to \<open>fetch\<close>; \<open>body\<close> stands for
  \<open>JSON.stringify(data)\<close>.\<close>

record 'd request =
  url :: string
  http_method :: http_method
  headers :: "(string \<times> string) list"
  body :: "'d option"

text \<open>
  What the client reads of a \<open>Response\<close>: \<open>error_message\<close> is the \<open>message\<close> field of
  \<open>await response.json().catch(() => ({}))\<close>, and \<open>json\<close> is the outcome of
  \<open>response.json()\<close> (\<open>Inl\<close> when that promise rejects).
\<close>

record 'j response =
  ok :: bool
  status_code :: nat
  statusText :: string
  error_message :: "string option"
  json :: "string + 'j"

datatype 'j fetch_result = Rejected string | Responded "'j response"

text \<open>
  \<open>apiClient\<close>, with the module constant \<open>AGENT_SERVER_BASE_URL\<close> and \<open>fetch\<close> as
  parameters. The result pairs the requests issued with the outcome of the promise:
  \<open>Inl\<close> is the message of the thrown \<open>Error\<close>.
\<close>

definition apiClient ::
  "string option \<Rightarrow> ('d request \<Rightarrow> 'j fetch_result) \<Rightarrow> string \<Rightarrow> http_method
     \<Rightarrow> session option \<Rightarrow> 'd option \<Rightarrow> 'd request list \<times> (string + 'j)" where
  "apiClient base fetch endpoint method ss data =
     (if \<not> truthy_str base then ([], Inl ''AGENT_SERVER_BASE_URL is not defined.'')
      else if \<not> truthy_str (session_user_id ss) then ([], Inl ''User session is not available.'')
      else (let req = \<lparr>url = the base @ endpoint, http_method = method,
                        headers = [(''Content-Type'', ''application/json''),
                                   (''X-User-Id'', the (session_user_id ss))],
                        body = data\<rparr>
            in ([req],
                case fetch req of
                  Rejected err \<Rightarrow> Inl err
                | Responded r \<Rightarrow>
                    if \<not> ok r
                    then Inl (''API call failed with status '' @ show_nat (status_code r) @ '': ''
                              @ (if truthy_str (error_message r) then the (error_message r)
                                 else statusText r))
                    else json r)))"

record Conversation =
  thread_id :: string
  messages_conv :: "ChatMessage list"

text \<open>The \<open>queryFn\<close> of the conversation query in \<open>useWsStream\<close>.\<close>

definition queryFn ::
  "string option \<Rightarrow> (unit request \<Rightarrow> Conversation fetch_result) \<Rightarrow> session option
     \<Rightarrow> string option \<Rightarrow> unit request list \<times> (string + Conversation)" where
  "queryFn base fetch ss threadId =
     (if ss = None \<or> \<not> truthy_str threadId
      then ([], Inr \<lparr>thread_id = [], messages_conv = []\<rparr>)
      else apiClient base fetch (''/conversation/'' @ the threadId) GET ss None)"

section \<open>Vocabulary of the properties\<close>

text \<open>\<open>data.content || ""\<close>.\<close>

definition fragment :: "string option \<Rightarrow> string" where
  "fragment c = (case c of None \<Rightarrow> [] | Some t \<Rightarrow> t)"

text \<open>The message the default case pushes.\<close>

definition streaming_msg :: "env \<Rightarrow> string \<Rightarrow> ChatMessage" where
  "streaming_msg e i = (plain i False [])\<lparr>isStreaming := Some True, startTime := Some (now e)\<rparr>"

text \<open>An active message is one that is waiting or streaming; \<open>active_for a\<close> counts the
  active messages authored by \<open>a\<close>.\<close>

definition active :: "ChatMessage \<Rightarrow> bool" where
  "active m = (waiting m \<or> streaming m)"

definition active_for :: "string \<Rightarrow> ChatMessage list \<Rightarrow> nat" where
  "active_for a ms = length (filter (\<lambda>m. agent m = Some a \<and> active m) ms)"

text \<open>The steps that open a slot for the author \<open>a\<close>: an \<open>agent_start\<close> that passes the
  guard and maps to \<open>a\<close>, or a \<open>task_delegated\<close> naming \<open>a\<close>.\<close>

fun opens :: "string \<Rightarrow> action \<Rightarrow> bool" where
  "opens a (Recv (AgentStart g st)) = (shown_start g \<and> display_name g = a)"
| "opens a (Recv (TaskDelegated n t)) = (n = a)"
| "opens a x = False"

definition opened_for :: "string \<Rightarrow> (env \<times> action) list \<Rightarrow> nat" where
  "opened_for a acts = length (filter (\<lambda>p. opens a (snd p)) acts)"

text \<open>\<open>new\<close> keeps every message of \<open>old\<close> at its position, by id.\<close>

definition extends :: "ChatMessage list \<Rightarrow> ChatMessage list \<Rightarrow> bool" where
  "extends old new = (length old \<le> length new
                       \<and> map id_msg (take (length old) new) = map id_msg old)"

text \<open>\<open>m'\<close> is \<open>m\<close> changed in place: same id, same author, and active only if \<open>m\<close> was.\<close>

definition calm :: "ChatMessage \<Rightarrow> ChatMessage \<Rightarrow> bool" where
  "calm m m' = (id_msg m' = id_msg m \<and> agent m' = agent m \<and> (active m \<or> \<not> active m'))"

text \<open>The two shapes a step gives the timeline.\<close>

definition in_place :: "hook \<Rightarrow> hook \<Rightarrow> bool" where
  "in_place s s' = list_all2 calm (messages s) (messages s')"

definition appended :: "hook \<Rightarrow> hook \<Rightarrow> ChatMessage \<Rightarrow> bool" where
  "appended s s' m = (messages s' = messages s @ [m])"

section \<open>Concrete inputs used by the examples\<close>

definition env0 :: env where
  "env0 = \<lparr>now = 1000, rnd = ''k3x9q''\<rparr>"

definition env1 :: env where
  "env1 = \<lparr>now = 1020, rnd = ''p0w2z''\<rparr>"

definition env2 :: env where
  "env2 = \<lparr>now = 1045, rnd = ''m7c1d''\<rparr>"

text \<open>A timeline with one streaming message and the fragment \<open>Hel\<close> still queued.\<close>

definition revealing :: hook where
  "revealing = handle env0 (Other (Some ''Hel'')) initial"

text \<open>Two tasks delegated to the same agent, both still waiting.\<close>

definition two_waiting :: hook where
  "two_waiting = handle env1 (TaskDelegated ''Layla'' ''compare'')
                   (handle env0 (TaskDelegated ''Layla'' ''survey'') initial)"

text \<open>A finished message of one agent followed by a waiting message of another.\<close>

definition mixed :: hook where
  "mixed = handle env2 (TaskDelegated ''Omar'' ''compare'')
             (handle env1 (AgentOutput ''Layla'' ''found three'')
                (handle env0 (TaskDelegated ''Layla'' ''survey'') initial))"

text \<open>The simplifier announced twice in a row.\<close>

definition twice_started :: "(env \<times> action) list" where
  "twice_started = [(env0, Recv (AgentStart ''Simplifier Agent'' ''started'')),
                    (env1, Recv (AgentStart ''Simplifier Agent'' ''started''))]"

text \<open>A first prompt sent on a fresh hook, after its socket has opened.\<close>

definition connected :: hook where
  "connected = on_open 0 (sendMessage env0 ''first question'' initial)"

text \<open>A server that answers every request with one stored conversation, and two sessions.\<close>

definition stored :: Conversation where
  "stored = \<lparr>thread_id = ''t1'', messages_conv = [plain ''m1'' True ''hello'']\<rparr>"

definition server :: "unit request \<Rightarrow> Conversation fetch_result" where
  "server r = Responded \<lparr>ok = True, status_code = 200, statusText = ''OK'',
                          error_message = None, json = Inr stored\<rparr>"

definition alice :: "session option" where
  "alice = Some \<lparr>user = Some \<lparr>id_user = Some ''u42''\<rparr>\<rparr>"

definition anonymous :: "session option" where
  "anonymous = Some \<lparr>user = None\<rparr>"

section \<open>Basic facts\<close>

lemmas flag_defs =
  waiting_def streaming_def errored_def final_def truthy_def truthy_num_def truthy_str_def

lemmas build_defs =
  generateUniqueId_def push_def set_last_def plain_def waiting_msg_def output_msg_def

lemma update_last: "xs \<noteq> [] \<Longrightarrow> xs[length xs - Suc 0 := m] = butlast xs @ [m]"
  by (induction xs rule: rev_induct) (simp_all add: list_update_append)

lemma tick_empty: "streamQueue s = [] \<Longrightarrow> tick s = s"
  by (simp add: tick_def)

lemma ticks_empty: "streamQueue s = [] \<Longrightarrow> ticks n s = s"
  by (induction n) (simp_all add: tick_empty)

section \<open>Final answer supersedes the reveal\<close>

lemma final_answer_queue: "streamQueue (handle e (FinalAnswer c) s) = []"
  by (simp add: handle.simps Let_def)

lemma final_answer_in_place:
  assumes "messages s \<noteq> []" "waiting (last (messages s)) \<or> streaming (last (messages s))"
  shows "messages (handle e (FinalAnswer c) s) =
     butlast (messages s) @ [(last (messages s))\<lparr>content := c, isStreaming := Some False,
                 isWaiting := Some False,
                 endTime := (if truthy_num (startTime (last (messages s)))
                             then Some (now e) else None)\<rparr>]"
  using assms by (auto simp add: handle.simps set_last_def update_last waiting_def streaming_def)

lemma final_answer_append:
  assumes "messages s = [] \<or> (\<not> waiting (last (messages s)) \<and> \<not> streaming (last (messages s)))"
  shows "messages (handle e (FinalAnswer c) s) =
     messages s @ [(plain (fst (generateUniqueId e ''final'' s)) False c)
                      \<lparr>agent := Some ''Final Synthesizer'', isStreaming := Some False\<rparr>]"
  using assms
  by (auto simp add: handle.simps build_defs waiting_def streaming_def agentNameMap_def Let_def)

text \<open>
  C1. Whenever characters are still queued for reveal, a \<open>final_answer\<close> event with payload
  \<open>c\<close> leaves a timeline whose last message has content exactly \<open>c\<close> and is neither waiting
  nor streaming. If the last message was waiting or streaming it is finalized in place (same
  position, same id and author, everything before it untouched); otherwise one new final
  message authored by \<open>Final Synthesizer\<close> is appended. The reveal queue is empty afterwards,
  so any number of reveal ticks leaves the timeline as it is.
\<close>

theorem final_answer_clears_reveal:
  assumes "streamQueue s \<noteq> []"
  shows "messages (handle e (FinalAnswer c) s) \<noteq> []
    \<and> content (last (messages (handle e (FinalAnswer c) s))) = c
    \<and> \<not> waiting (last (messages (handle e (FinalAnswer c) s)))
    \<and> \<not> streaming (last (messages (handle e (FinalAnswer c) s)))
    \<and> (if messages s \<noteq> [] \<and> (waiting (last (messages s)) \<or> streaming (last (messages s)))
       then length (messages (handle e (FinalAnswer c) s)) = length (messages s)
          \<and> butlast (messages (handle e (FinalAnswer c) s)) = butlast (messages s)
          \<and> id_msg (last (messages (handle e (FinalAnswer c) s))) = id_msg (last (messages s))
          \<and> agent (last (messages (handle e (FinalAnswer c) s))) = agent (last (messages s))
       else butlast (messages (handle e (FinalAnswer c) s)) = messages s
          \<and> agent (last (messages (handle e (FinalAnswer c) s))) = Some ''Final Synthesizer''
          \<and> final (last (messages (handle e (FinalAnswer c) s))))
    \<and> streamQueue (handle e (FinalAnswer c) s) = []
    \<and> (\<forall>n. messages (ticks n (handle e (FinalAnswer c) s)) = messages (handle e (FinalAnswer c) s)
           \<and> streamQueue (ticks n (handle e (FinalAnswer c) s)) = [])"
proof (cases "messages s \<noteq> [] \<and> (waiting (last (messages s)) \<or> streaming (last (messages s)))")
  case True
  then have m: "messages (handle e (FinalAnswer c) s) =
     butlast (messages s) @ [(last (messages s))\<lparr>content := c, isStreaming := Some False,
                 isWaiting := Some False,
                 endTime := (if truthy_num (startTime (last (messages s)))
                             then Some (now e) else None)\<rparr>]"
    using final_answer_in_place by blast
  show ?thesis
    using True by (simp only: m ticks_empty [OF final_answer_queue] final_answer_queue)
      (simp add: flag_defs)
next
  case False
  then have m: "messages (handle e (FinalAnswer c) s) =
     messages s @ [(plain (fst (generateUniqueId e ''final'' s)) False c)
                      \<lparr>agent := Some ''Final Synthesizer'', isStreaming := Some False\<rparr>]"
    using final_answer_append by blast
  show ?thesis
    using False by (simp only: m ticks_empty [OF final_answer_queue] final_answer_queue)
      (simp add: flag_defs plain_def)
qed

text \<open>The theorem at the timeline that is revealing \<open>Hel\<close> when \<open>done\<close> arrives.\<close>

theorem final_answer_clears_reveal_witness:
  "streamQueue revealing = ''Hel''
   \<and> map content (messages (handle env1 (FinalAnswer ''done'') revealing)) = [''done'']
   \<and> content (last (messages (handle env1 (FinalAnswer ''done'') revealing))) = ''done''
   \<and> streamQueue (handle env1 (FinalAnswer ''done'') revealing) = []
   \<and> messages (ticks 3 (handle env1 (FinalAnswer ''done'') revealing))
       = messages (handle env1 (FinalAnswer ''done'') revealing)"
proof -
  have q: "streamQueue revealing = ''Hel''"
    by (simp add: revealing_def initial_def handle.simps build_defs flag_defs)
  then have h: "streamQueue revealing \<noteq> []" by simp
  have c: "map content (messages (handle env1 (FinalAnswer ''done'') revealing)) = [''done'']"
    by (simp add: revealing_def initial_def handle.simps build_defs flag_defs)
  from final_answer_clears_reveal [OF h, of env1 "''done''"] q c show ?thesis by blast
qed

section \<open>Agent output\<close>

lemma output_msg_id: "\<not> (agent m = Some a \<and> waiting m) \<Longrightarrow> output_msg e a c m = m"
  by (auto simp add: output_msg_def waiting_def)

lemma mixed_messages:
  "map (\<lambda>m. (agent m, waiting m, content m)) (messages mixed)
     = [(Some ''Layla'', False, ''found three''), (Some ''Omar'', True, [])]"
  by (simp add: mixed_def initial_def handle.simps build_defs flag_defs)

lemma two_waiting_messages:
  "length (messages two_waiting) = 2"
  "agent (messages two_waiting ! 0) = Some ''Layla''" "waiting (messages two_waiting ! 0)"
  "agent (messages two_waiting ! 1) = Some ''Layla''" "waiting (messages two_waiting ! 1)"
  by (simp_all add: two_waiting_def initial_def handle.simps build_defs flag_defs)

text \<open>
  C2, as amended. An \<open>agent_output\<close> event keeps the length and order of the timeline and
  rewrites every message that is authored by the named agent and waiting: its content
  becomes the payload, \<open>isWaiting\<close> becomes false and \<open>endTime\<close> is stamped. Every other
  message, and the reveal queue and the connection status, stay as they were.
\<close>

theorem agent_output_every_waiting:
  "length (messages (handle e (AgentOutput a c) s)) = length (messages s)
   \<and> (\<forall>k < length (messages s).
        messages (handle e (AgentOutput a c) s) ! k =
          (if agent (messages s ! k) = Some a \<and> waiting (messages s ! k)
           then (messages s ! k)\<lparr>content := c, isWaiting := Some False, endTime := Some (now e)\<rparr>
           else messages s ! k))
   \<and> streamQueue (handle e (AgentOutput a c) s) = streamQueue s
   \<and> status (handle e (AgentOutput a c) s) = status s"
  by (simp add: handle.simps output_msg_def waiting_def)

text \<open>Both waiting messages of \<open>Layla\<close> receive the output.\<close>

theorem agent_output_every_waiting_witness:
  "map content (messages (handle env2 (AgentOutput ''Layla'' ''done'') two_waiting))
     = [''done'', ''done'']
   \<and> map waiting (messages (handle env2 (AgentOutput ''Layla'' ''done'') two_waiting))
     = [False, False]"
proof -
  let ?r = "messages (handle env2 (AgentOutput ''Layla'' ''done'') two_waiting)"
  from agent_output_every_waiting [of env2 "''Layla''" "''done''" two_waiting]
  have n: "length ?r = 2"
    and a: "\<forall>k<2. ?r ! k = (messages two_waiting ! k)\<lparr>content := ''done'',
                isWaiting := Some False, endTime := Some (now env2)\<rparr>"
    using two_waiting_messages by (simp_all add: less_Suc_eq numeral_2_eq_2)
  have "?r = [?r ! 0, ?r ! 1]"
    using n by (simp add: list_eq_iff_nth_eq less_Suc_eq numeral_2_eq_2)
  then show ?thesis using a by (simp add: flag_defs)
qed

text \<open>
  The property as the specification words it fails: with two waiting messages of the same agent, the earlier one
  (index 0 of 2) is altered as well.
\<close>

theorem agent_output_latest_only_counterexample:
  "length (messages two_waiting) = 2
   \<and> agent (messages two_waiting ! 0) = Some ''Layla'' \<and> waiting (messages two_waiting ! 0)
   \<and> agent (messages two_waiting ! 1) = Some ''Layla'' \<and> waiting (messages two_waiting ! 1)
   \<and> messages (handle env2 (AgentOutput ''Layla'' ''done'') two_waiting) ! 0
        \<noteq> messages two_waiting ! 0
   \<and> content (messages (handle env2 (AgentOutput ''Layla'' ''done'') two_waiting) ! 0) = ''done''
   \<and> \<not> waiting (messages (handle env2 (AgentOutput ''Layla'' ''done'') two_waiting) ! 0)
   \<and> endTime (messages (handle env2 (AgentOutput ''Layla'' ''done'') two_waiting) ! 0)
        = Some 1045"
  by (simp add: two_waiting_def initial_def handle.simps build_defs flag_defs env2_def)

text \<open>
  C6. When no message of the timeline is both authored by the agent an \<open>agent_output\<close>
  event names and waiting, the event changes nothing at all: the whole hook state,
  timeline included, is the one before.
\<close>

theorem agent_output_no_match_unchanged:
  assumes "\<forall>m \<in> set (messages s). \<not> (agent m = Some a \<and> waiting m)"
  shows "handle e (AgentOutput a c) s = s"
proof -
  have "map (output_msg e a c) (messages s) = messages s"
    using assms by (intro map_idI) (simp add: output_msg_id)
  then show ?thesis by (simp add: handle.simps)
qed

text \<open>A late output for \<open>Layla\<close>, whose only message is already final.\<close>

theorem agent_output_no_match_unchanged_witness:
  "map (\<lambda>m. (agent m, waiting m, content m)) (messages mixed)
     = [(Some ''Layla'', False, ''found three''), (Some ''Omar'', True, [])]
   \<and> handle env0 (AgentOutput ''Layla'' ''late'') mixed = mixed"
proof -
  have "\<forall>m \<in> set (messages mixed). \<not> (agent m = Some ''Layla'' \<and> waiting m)"
    by (simp add: mixed_def initial_def handle.simps build_defs flag_defs)
  from agent_output_no_match_unchanged [OF this] mixed_messages show ?thesis by blast
qed

section \<open>The start and output scenario\<close>

text \<open>
  C3, as amended. From the empty timeline, \<open>agent_start\<close> for \<open>Eleanor\<close> (or for
  \<open>Architect Agent\<close>, the server name that maps to her) is suppressed by the guard of the
  case, so the following \<open>agent_output\<close> finds nothing to finalize and the timeline stays
  empty. When the waiting message for \<open>Eleanor\<close> is opened by \<open>task_delegated\<close>, the same
  output yields exactly one message: author \<open>Eleanor\<close>, final, content \<open>plan ready\<close>.
\<close>

theorem eleanor_scenario:
  "messages (handle eb (AgentOutput ''Eleanor'' ''plan ready'')
        (handle ea (AgentStart ''Eleanor'' st) initial)) = []
   \<and> messages (handle eb (AgentOutput ''Eleanor'' ''plan ready'')
        (handle ea (AgentStart ''Architect Agent'' st) initial)) = []
   \<and> map (\<lambda>m. (agent m, final m, content m))
        (messages (handle eb (AgentOutput ''Eleanor'' ''plan ready'')
           (handle ea (TaskDelegated ''Eleanor'' t) initial)))
       = [(Some ''Eleanor'', True, ''plan ready'')]"
  by (simp add: initial_def handle.simps build_defs flag_defs shown_start_def specialAgents_def)

theorem eleanor_scenario_witness:
  "messages (handle env1 (AgentOutput ''Eleanor'' ''plan ready'')
        (handle env0 (AgentStart ''Eleanor'' ''started'') initial)) = []
   \<and> map (\<lambda>m. (agent m, final m, content m))
        (messages (handle env1 (AgentOutput ''Eleanor'' ''plan ready'')
           (handle env0 (TaskDelegated ''Eleanor'' ''plan'') initial)))
       = [(Some ''Eleanor'', True, ''plan ready'')]"
  using eleanor_scenario [of env1 env0 "''started''" "''plan''"] by blast

text \<open>The scenario as stated: the timeline is empty, not the one message announced.\<close>

theorem eleanor_scenario_counterexample:
  "messages (handle env1 (AgentOutput ''Eleanor'' ''plan ready'')
        (handle env0 (AgentStart ''Eleanor'' ''started'') initial)) = []
   \<and> length (messages (handle env1 (AgentOutput ''Eleanor'' ''plan ready'')
        (handle env0 (AgentStart ''Eleanor'' ''started'') initial))) \<noteq> 1"
  by (simp add: initial_def handle.simps shown_start_def specialAgents_def)

section \<open>Server-reported errors\<close>

text \<open>
  C8. An \<open>error\<close> or \<open>system_abort\<close> event with text \<open>m\<close> appends exactly one message to the
  timeline, in error state, with content \<open>m\<close> and no retry prompt; the messages before it
  are unchanged and the connection status becomes error. On the empty timeline,
  \<open>error{message: "overloaded"}\<close> gives the single error message \<open>overloaded\<close>.
\<close>

theorem error_event_appends:
  "messages (handle e (ErrorEvent m) s) = messages s @ [last (messages (handle e (ErrorEvent m) s))]
   \<and> errored (last (messages (handle e (ErrorEvent m) s)))
   \<and> content (last (messages (handle e (ErrorEvent m) s))) = m
   \<and> originalPrompt (last (messages (handle e (ErrorEvent m) s))) = None
   \<and> status (handle e (ErrorEvent m) s) = ErrorStatus
   \<and> messages (handle e (SystemAbort m) s)
       = messages s @ [last (messages (handle e (SystemAbort m) s))]
   \<and> errored (last (messages (handle e (SystemAbort m) s)))
   \<and> content (last (messages (handle e (SystemAbort m) s))) = m
   \<and> originalPrompt (last (messages (handle e (SystemAbort m) s))) = None
   \<and> status (handle e (SystemAbort m) s) = ErrorStatus
   \<and> map (\<lambda>m. (errored m, content m)) (messages (handle e (ErrorEvent ''overloaded'') initial))
        = [(True, ''overloaded'')]
   \<and> status (handle e (ErrorEvent ''overloaded'') initial) = ErrorStatus"
  by (simp add: initial_def handle.simps build_defs flag_defs)

theorem error_event_appends_witness:
  "map (\<lambda>m. (errored m, content m)) (messages (handle env0 (ErrorEvent ''overloaded'') initial))
        = [(True, ''overloaded'')]
   \<and> status (handle env0 (ErrorEvent ''overloaded'') initial) = ErrorStatus
   \<and> messages (handle env1 (SystemAbort ''stopped'') revealing)
       = messages revealing @ [last (messages (handle env1 (SystemAbort ''stopped'') revealing))]
   \<and> content (last (messages (handle env1 (SystemAbort ''stopped'') revealing))) = ''stopped''"
  using error_event_appends [of env0 "''overloaded''" initial]
    error_event_appends [of env1 "''stopped''" revealing]
  by blast

section \<open>Raw incremental text and its reveal\<close>

lemma other_queue: "streamQueue (handle e (Other c) s) = streamQueue s @ fragment c"
  by (auto simp add: handle.simps fragment_def build_defs truthy_str_def Let_def
      split: option.splits)

lemma other_waiting:
  assumes "messages s \<noteq> []" "waiting (last (messages s))"
  shows "messages (handle e (Other c) s) =
     butlast (messages s) @ [(last (messages s))\<lparr>content := [], isWaiting := Some False,
                                                  isStreaming := Some True\<rparr>]"
  using assms by (simp add: handle.simps set_last_def update_last waiting_def Let_def)

lemma other_append:
  assumes "messages s = [] \<or> (\<not> waiting (last (messages s))
             \<and> (isUser (last (messages s)) \<or> \<not> streaming (last (messages s))))"
  shows "messages (handle e (Other c) s) =
     messages s @ [streaming_msg e (fst (generateUniqueId e ''streaming'' s))]"
  using assms
  by (auto simp add: handle.simps build_defs streaming_msg_def waiting_def streaming_def Let_def)

lemma other_streaming:
  assumes "messages s \<noteq> []" "\<not> waiting (last (messages s))" "\<not> isUser (last (messages s))"
    "streaming (last (messages s))"
  shows "messages (handle e (Other c) s) = messages s"
  using assms by (simp add: handle.simps waiting_def streaming_def Let_def)

lemma tick_streaming:
  assumes "messages s \<noteq> []" "streaming (last (messages s))"
  shows "messages (tick s) = butlast (messages s)
            @ [(last (messages s))\<lparr>content := content (last (messages s))
                                                  @ take 1 (streamQueue s)\<rparr>]"
    and "streamQueue (tick s) = drop 1 (streamQueue s)"
  using assms by (simp_all add: tick_def streaming_def split: list.splits)

lemma ticks_streaming:
  assumes "messages s \<noteq> []" "streaming (last (messages s))"
  shows "messages (ticks n s) = butlast (messages s)
            @ [(last (messages s))\<lparr>content := content (last (messages s))
                                                  @ take n (streamQueue s)\<rparr>]
         \<and> streamQueue (ticks n s) = drop n (streamQueue s)"
  using assms
proof (induction n arbitrary: s)
  case 0
  then show ?case by simp
next
  case (Suc n)
  have ne: "messages (tick s) \<noteq> []" and st: "streaming (last (messages (tick s)))"
    using Suc.prems by (simp_all add: tick_streaming streaming_def)
  have t: "take 1 (streamQueue s) @ take n (drop 1 (streamQueue s)) = take (Suc n) (streamQueue s)"
    by (cases "streamQueue s") simp_all
  show ?case
    using Suc.IH [OF ne st] Suc.prems t by (simp add: tick_streaming)
qed

lemma reveal_first_fragment:
  "messages (ticks k (handle ea (Other (Some a)) initial))
     = [(streaming_msg ea (fst (generateUniqueId ea ''streaming'' initial)))\<lparr>content := take k a\<rparr>]
   \<and> streamQueue (ticks k (handle ea (Other (Some a)) initial)) = drop k a"
proof -
  let ?m = "streaming_msg ea (fst (generateUniqueId ea ''streaming'' initial))"
  let ?s1 = "handle ea (Other (Some a)) initial"
  have m1: "messages ?s1 = [?m]"
    using other_append [of initial ea "Some a"] by (simp add: initial_def)
  have q1: "streamQueue ?s1 = a"
    by (simp add: other_queue fragment_def initial_def)
  have sm: "streaming ?m" "content ?m = []"
    by (simp_all add: streaming_msg_def plain_def flag_defs)
  show ?thesis
    using ticks_streaming [of ?s1 k] m1 q1 sm by simp
qed

lemma reveal_second_fragment:
  "messages (handle eb (Other (Some b)) (ticks k (handle ea (Other (Some a)) initial)))
     = [(streaming_msg ea (fst (generateUniqueId ea ''streaming'' initial)))\<lparr>content := take k a\<rparr>]
   \<and> streamQueue (handle eb (Other (Some b)) (ticks k (handle ea (Other (Some a)) initial)))
       = drop k a @ b"
proof -
  let ?m = "streaming_msg ea (fst (generateUniqueId ea ''streaming'' initial))"
  let ?s2 = "ticks k (handle ea (Other (Some a)) initial)"
  have sm: "streaming (?m\<lparr>content := take k a\<rparr>)" "\<not> waiting (?m\<lparr>content := take k a\<rparr>)"
    "\<not> isUser (?m\<lparr>content := take k a\<rparr>)"
    by (simp_all add: streaming_msg_def plain_def flag_defs)
  show ?thesis
    using other_streaming [of ?s2 eb "Some b"] sm
    by (simp add: reveal_first_fragment other_queue fragment_def)
qed

lemma reveal_two_fragments:
  assumes "length a - k + length b \<le> n"
  shows "messages (ticks n (handle eb (Other (Some b)) (ticks k (handle ea (Other (Some a)) initial))))
     = [(streaming_msg ea (fst (generateUniqueId ea ''streaming'' initial)))\<lparr>content := a @ b\<rparr>]"
proof -
  let ?m = "streaming_msg ea (fst (generateUniqueId ea ''streaming'' initial))"
  let ?s3 = "handle eb (Other (Some b)) (ticks k (handle ea (Other (Some a)) initial))"
  have sm: "streaming (?m\<lparr>content := take k a\<rparr>)"
    by (simp add: streaming_msg_def plain_def flag_defs)
  have "length (drop k a @ b) \<le> n" using assms by simp
  then have t: "take n (drop k a @ b) = drop k a @ b" by (rule take_all)
  have "messages (ticks n ?s3) = [?m\<lparr>content := take k a @ take n (drop k a @ b)\<rparr>]"
    using ticks_streaming [of ?s3 n] sm by (simp add: reveal_second_fragment)
  also have "take k a @ take n (drop k a @ b) = a @ b"
    unfolding t by (simp add: append_assoc [symmetric] del: append_assoc)
  finally show ?thesis .
qed

text \<open>
  C7. For a default-kind event with optional content \<open>c\<close>, read as the handler tests its
  cases in order: the fragment (\<open>c\<close>, or nothing when absent) is always appended to the
  reveal queue; a waiting last message is turned in place into a streaming one with empty
  content; on an empty timeline, or when the last message is not waiting and is a user
  message or is not streaming (final or error), exactly one new streaming message with empty
  content and no author is appended; when the last message is a streaming agent message the
  timeline is unchanged. Scenario: on the empty timeline the fragment \<open>Hel\<close>, then \<open>k\<close>
  reveal ticks, then the fragment \<open>lo\<close> leave exactly one streaming message, and once the
  ticks have drained what is queued its content is \<open>Hello\<close>.
\<close>

theorem raw_fragment_cases:
  "streamQueue (handle e (Other c) s) = streamQueue s @ (case c of None \<Rightarrow> [] | Some t \<Rightarrow> t)
   \<and> (messages s \<noteq> [] \<and> waiting (last (messages s)) \<longrightarrow>
        messages (handle e (Other c) s) =
          butlast (messages s) @ [(last (messages s))\<lparr>content := [], isWaiting := Some False,
                                                       isStreaming := Some True\<rparr>])
   \<and> (messages s = [] \<or> (\<not> waiting (last (messages s))
          \<and> (isUser (last (messages s)) \<or> \<not> streaming (last (messages s)))) \<longrightarrow>
        messages (handle e (Other c) s) = messages s @ [last (messages (handle e (Other c) s))]
        \<and> streaming (last (messages (handle e (Other c) s)))
        \<and> \<not> waiting (last (messages (handle e (Other c) s)))
        \<and> \<not> isUser (last (messages (handle e (Other c) s)))
        \<and> content (last (messages (handle e (Other c) s))) = []
        \<and> agent (last (messages (handle e (Other c) s))) = None)
   \<and> (messages s \<noteq> [] \<and> \<not> waiting (last (messages s)) \<and> \<not> isUser (last (messages s))
          \<and> streaming (last (messages s)) \<longrightarrow>
        messages (handle e (Other c) s) = messages s)
   \<and> (\<forall>k. map (\<lambda>m. (streaming m, content m))
            (messages (ticks k (handle ea (Other (Some ''Hel'')) initial)))
          = [(True, take k ''Hel'')]
        \<and> length (messages (handle eb (Other (Some ''lo''))
                  (ticks k (handle ea (Other (Some ''Hel'')) initial)))) = 1
        \<and> (\<forall>n. (3 - k) + 2 \<le> n \<longrightarrow>
              map (\<lambda>m. (streaming m, content m))
                (messages (ticks n (handle eb (Other (Some ''lo''))
                  (ticks k (handle ea (Other (Some ''Hel'')) initial))))) = [(True, ''Hello'')]))"
proof -
  have q: "streamQueue (handle e (Other c) s)
      = streamQueue s @ (case c of None \<Rightarrow> [] | Some t \<Rightarrow> t)"
    by (simp add: other_queue fragment_def)
  have a: "messages (handle e (Other c) s) = messages s @ [last (messages (handle e (Other c) s))]
        \<and> streaming (last (messages (handle e (Other c) s)))
        \<and> \<not> waiting (last (messages (handle e (Other c) s)))
        \<and> \<not> isUser (last (messages (handle e (Other c) s)))
        \<and> content (last (messages (handle e (Other c) s))) = []
        \<and> agent (last (messages (handle e (Other c) s))) = None"
    if "messages s = [] \<or> (\<not> waiting (last (messages s))
          \<and> (isUser (last (messages s)) \<or> \<not> streaming (last (messages s))))"
    by (simp add: other_append [OF that] streaming_msg_def plain_def flag_defs)
  have sc: "map (\<lambda>m. (streaming m, content m))
            (messages (ticks k (handle ea (Other (Some ''Hel'')) initial)))
          = [(True, take k ''Hel'')]
        \<and> length (messages (handle eb (Other (Some ''lo''))
                  (ticks k (handle ea (Other (Some ''Hel'')) initial)))) = 1
        \<and> (\<forall>n. (3 - k) + 2 \<le> n \<longrightarrow>
              map (\<lambda>m. (streaming m, content m))
                (messages (ticks n (handle eb (Other (Some ''lo''))
                  (ticks k (handle ea (Other (Some ''Hel'')) initial))))) = [(True, ''Hello'')])"
    for k
  proof -
    have "map (\<lambda>m. (streaming m, content m))
              (messages (ticks n (handle eb (Other (Some ''lo''))
                  (ticks k (handle ea (Other (Some ''Hel'')) initial))))) = [(True, ''Hello'')]"
      if "(3 - k) + 2 \<le> n" for n
    proof -
      have "length ''Hel'' - k + length ''lo'' \<le> n" using that by simp
      from reveal_two_fragments [OF this] show ?thesis
        by (simp add: streaming_msg_def plain_def flag_defs)
    qed
    then show ?thesis
      by (simp add: reveal_first_fragment reveal_second_fragment streaming_msg_def plain_def
          flag_defs del: take_Cons_numeral)
  qed
  show ?thesis
    using q a sc other_waiting [of s e c] other_streaming [of s e c] by blast
qed

lemma revealing_last:
  "messages revealing \<noteq> []" "\<not> waiting (last (messages revealing))"
  "\<not> isUser (last (messages revealing))" "streaming (last (messages revealing))"
  "streamQueue revealing = ''Hel''"
  by (simp_all add: revealing_def initial_def handle.simps build_defs flag_defs)

lemma two_waiting_last:
  "messages two_waiting \<noteq> []" "waiting (last (messages two_waiting))"
  by (simp_all add: two_waiting_def initial_def handle.simps build_defs flag_defs)

text \<open>The three cases at concrete timelines, and the scenario with the second fragment
  arriving after one tick.\<close>

theorem raw_fragment_cases_witness:
  "messages (handle env1 (Other (Some ''lo'')) revealing) = messages revealing
   \<and> streamQueue (handle env1 (Other (Some ''lo'')) revealing) = ''Hello''
   \<and> messages (handle env2 (Other None) two_waiting)
       = butlast (messages two_waiting)
          @ [(last (messages two_waiting))\<lparr>content := [], isWaiting := Some False,
                                             isStreaming := Some True\<rparr>]
   \<and> streaming (last (messages (handle env0 (Other (Some ''Hel'')) initial)))
   \<and> length (messages (handle env1 (Other (Some ''lo''))
               (ticks 1 (handle env0 (Other (Some ''Hel'')) initial)))) = 1
   \<and> map (\<lambda>m. (streaming m, content m))
        (messages (ticks 4 (handle env1 (Other (Some ''lo''))
           (ticks 1 (handle env0 (Other (Some ''Hel'')) initial))))) = [(True, ''Hello'')]"
proof -
  have i: "messages initial = []" by (simp add: initial_def)
  have n: "(3 - 1) + 2 \<le> (4::nat)" by simp
  from raw_fragment_cases [of env1 "Some ''lo''" revealing env0 env1] revealing_last
  have a: "messages (handle env1 (Other (Some ''lo'')) revealing) = messages revealing"
    and b: "streamQueue (handle env1 (Other (Some ''lo'')) revealing) = ''Hello''"
    by simp_all
  from raw_fragment_cases [of env2 None two_waiting env0 env1] two_waiting_last
  have c: "messages (handle env2 (Other None) two_waiting)
       = butlast (messages two_waiting)
          @ [(last (messages two_waiting))\<lparr>content := [], isWaiting := Some False,
                                             isStreaming := Some True\<rparr>]"
    by blast
  from raw_fragment_cases [of env0 "Some ''Hel''" initial env0 env1] i n
  have d: "streaming (last (messages (handle env0 (Other (Some ''Hel'')) initial)))"
    and e: "length (messages (handle env1 (Other (Some ''lo''))
               (ticks 1 (handle env0 (Other (Some ''Hel'')) initial)))) = 1"
    and f: "map (\<lambda>m. (streaming m, content m))
        (messages (ticks 4 (handle env1 (Other (Some ''lo''))
           (ticks 1 (handle env0 (Other (Some ''Hel'')) initial))))) = [(True, ''Hello'')]"
    by blast+
  from a b c d e f show ?thesis by blast
qed

section \<open>The shape of a step on the timeline\<close>

lemma calm_refl: "calm m m"
  by (simp add: calm_def)

lemma calm_all_refl: "list_all2 calm xs xs"
  by (simp add: list.rel_refl calm_refl)

lemma calm_set_last:
  assumes "xs \<noteq> []" "calm (last xs) m"
  shows "list_all2 calm xs (xs[length xs - Suc 0 := m])"
proof -
  have "list_all2 calm (xs[length xs - Suc 0 := xs ! (length xs - Suc 0)]) (xs[length xs - Suc 0 := m])"
    using assms by (intro list_all2_update_cong calm_all_refl) (simp add: last_conv_nth)
  then show ?thesis by simp
qed

lemma calm_map: "(\<And>m. calm m (f m)) \<Longrightarrow> list_all2 calm xs (map f xs)"
  by (simp add: list.rel_map list.rel_refl)

lemma messages_push: "messages (push m s) = messages s @ [m]"
  by (simp add: push_def)

lemma messages_set_last: "messages (set_last m s) = (messages s)[length (messages s) - Suc 0 := m]"
  by (simp add: set_last_def)

lemma messages_gen: "messages (snd (generateUniqueId e p s)) = messages s"
  by (simp add: generateUniqueId_def)

lemmas msgs = messages_push messages_set_last messages_gen case_prod_beta Let_def

lemma calm_output: "calm m (output_msg e a c m)"
  by (auto simp add: calm_def output_msg_def active_def flag_defs)

lemma shape_agent_start:
  "messages (handle e (AgentStart g st) s) =
     (if shown_start g then messages s @ [waiting_msg e (fst (generateUniqueId e g s)) (display_name g)]
      else messages s)"
  by (simp add: handle.simps msgs)

lemma shape_task_delegated:
  "messages (handle e (TaskDelegated n t) s) =
     messages s @ [waiting_msg e (fst (generateUniqueId e (''task-'' @ n) s)) n]"
  by (simp add: handle.simps msgs)

lemma shape_agent_output: "in_place s (handle e (AgentOutput a c) s)"
  by (simp add: handle.simps in_place_def calm_map calm_output)

lemma shape_simplification:
  "in_place s (handle e (SimplificationComplete a c) s)
   \<or> (\<exists>m. appended s (handle e (SimplificationComplete a c) s) m \<and> \<not> active m)"
  by (auto simp add: handle.simps msgs in_place_def appended_def plain_def active_def flag_defs
      calm_def intro!: calm_set_last)

lemma shape_final_answer:
  "in_place s (handle e (FinalAnswer c) s)
   \<or> (\<exists>m. appended s (handle e (FinalAnswer c) s) m \<and> \<not> active m)"
  by (auto simp add: handle.simps msgs in_place_def appended_def plain_def active_def flag_defs
      calm_def intro!: calm_set_last)

lemma shape_error:
  "\<exists>m. appended s (handle e (ErrorEvent t) s) m \<and> \<not> active m"
  "\<exists>m. appended s (handle e (SystemAbort t) s) m \<and> \<not> active m"
  by (simp_all add: handle.simps msgs appended_def plain_def active_def flag_defs generateUniqueId_def)

lemma shape_other:
  "in_place s (handle e (Other c) s)
   \<or> (\<exists>m. appended s (handle e (Other c) s) m \<and> agent m = None)"
proof (cases "messages s \<noteq> [] \<and> truthy (isWaiting (last (messages s)))")
  case True
  then have "in_place s (handle e (Other c) s)"
    by (auto simp add: handle.simps msgs in_place_def active_def flag_defs calm_def
      intro!: calm_set_last)
  then show ?thesis ..
next
  case False
  then show ?thesis
    by (auto simp add: handle.simps msgs in_place_def appended_def plain_def calm_all_refl)
qed

lemma shape_tick: "in_place s (tick s)"
proof (cases "streamQueue s")
  case Nil
  then show ?thesis by (simp add: tick_def in_place_def calm_all_refl)
next
  case (Cons c q)
  show ?thesis
  proof (cases "messages s \<noteq> [] \<and> truthy (isStreaming (last (messages s)))")
    case True
    have "calm (last (messages s)) ((last (messages s))\<lparr>content := content (last (messages s)) @ [c]\<rparr>)"
      by (auto simp add: calm_def active_def flag_defs)
    with True have "list_all2 calm (messages s) ((messages s)[length (messages s) - Suc 0 :=
        (last (messages s))\<lparr>content := content (last (messages s)) @ [c]\<rparr>])"
      by (intro calm_set_last) simp_all
    then show ?thesis using True Cons by (simp add: tick_def in_place_def update_last)
  next
    case False
    then show ?thesis using Cons by (auto simp add: tick_def in_place_def calm_all_refl)
  qed
qed

lemma messages_sendMessage:
  "messages (sendMessage e p s) = messages s @ [plain (fst (generateUniqueId e ''user'' s)) True p]"
  by (simp add: sendMessage_def msgs ws_send_def connect_def)

lemma messages_on_open: "messages (on_open k s) = messages s"
  by (simp add: on_open_def ws_send_def Let_def)

lemma messages_on_close: "messages (on_close k s) = messages s"
  by (simp add: on_close_def)

lemma messages_on_error: "messages (on_error k s) = messages s"
  by (simp add: on_error_def)

lemma step_shape:
  "in_place s (step e x s)
   \<or> (\<exists>m. appended s (step e x s) m \<and> (agent m = Some a \<and> active m \<longrightarrow> opens a x))"
proof (cases x)
  case (Recv ev)
  show ?thesis
  proof (cases ev)
    case (AgentStart g st)
    then show ?thesis using Recv
      by (simp add: shape_agent_start in_place_def appended_def calm_all_refl waiting_msg_def
          plain_def)
  next
    case (AgentOutput g c)
    then show ?thesis using Recv shape_agent_output by simp
  next
    case (FinalAnswer c)
    then show ?thesis using Recv shape_final_answer [of s e c] by auto
  next
    case (ErrorEvent t)
    then show ?thesis using Recv shape_error(1) [of s e t] by auto
  next
    case (SystemAbort t)
    then show ?thesis using Recv shape_error(2) [of s e t] by auto
  next
    case (ThoughtsAndTasks c ts)
    then show ?thesis using Recv by (simp add: handle.simps in_place_def calm_all_refl)
  next
    case (TaskDelegated n t)
    then show ?thesis using Recv
      by (simp add: shape_task_delegated appended_def waiting_msg_def plain_def)
  next
    case (LoopRetry t)
    then show ?thesis using Recv by (simp add: handle.simps in_place_def calm_all_refl)
  next
    case (SimplificationComplete g c)
    then show ?thesis using Recv shape_simplification [of s e g c] by auto
  next
    case (ValidationScore g n)
    then show ?thesis using Recv by (simp add: handle.simps in_place_def calm_all_refl)
  next
    case (Other c)
    then show ?thesis using Recv shape_other [of s e c] by auto
  qed
next
  case Tick
  then show ?thesis by (simp add: shape_tick)
next
  case (Send p)
  then show ?thesis
    by (simp add: appended_def messages_sendMessage plain_def)
next
  case (Opened k)
  then show ?thesis by (simp add: in_place_def messages_on_open calm_all_refl)
next
  case (Closed k)
  then show ?thesis by (simp add: in_place_def messages_on_close calm_all_refl)
next
  case (Failed k)
  then show ?thesis by (simp add: in_place_def messages_on_error calm_all_refl)
qed


lemma in_place_extends: "in_place s s' \<Longrightarrow> extends (messages s) (messages s')"
proof -
  assume a: "in_place s s'"
  then have l: "length (messages s) = length (messages s')"
    by (simp add: in_place_def list_all2_lengthD)
  have "map id_msg (messages s') = map id_msg (messages s)"
    using a unfolding in_place_def
    by (induction rule: list_all2_induct) (simp_all add: calm_def)
  then show ?thesis using l by (simp add: extends_def)
qed

lemma in_place_active: "in_place s s' \<Longrightarrow> active_for a (messages s') \<le> active_for a (messages s)"
  unfolding in_place_def active_for_def
  by (induction rule: list_all2_induct) (auto simp add: calm_def)

lemma in_place_length: "in_place s s' \<Longrightarrow> length (messages s') = length (messages s)"
  by (simp add: in_place_def list_all2_lengthD)

lemma extends_refl: "extends xs xs"
  by (simp add: extends_def)

lemma extends_trans: "extends xs ys \<Longrightarrow> extends ys zs \<Longrightarrow> extends xs zs"
proof -
  assume a: "extends xs ys" and b: "extends ys zs"
  have "map id_msg (take (length xs) zs) = take (length xs) (map id_msg (take (length ys) zs))"
    using a by (simp add: extends_def take_map [symmetric] min_def)
  also have "\<dots> = take (length xs) (map id_msg ys)" using b by (simp add: extends_def)
  also have "\<dots> = map id_msg xs" using a by (simp add: extends_def take_map)
  finally show ?thesis using a b by (simp add: extends_def)
qed

lemma extends_step: "extends (messages s) (messages (step e x s))"
  using step_shape [of s e x "[]"] in_place_extends [of s "step e x s"]
  by (auto simp add: appended_def extends_def)

lemma length_step: "length (messages (step e x s)) \<le> Suc (length (messages s))"
  using step_shape [of s e x "[]"]
  by (auto simp add: in_place_length appended_def)

lemma extends_run: "extends (messages s) (messages (run acts s))"
proof (induction acts arbitrary: s)
  case Nil
  show ?case by (simp add: extends_refl)
next
  case (Cons p acts)
  obtain e x where p: "p = (e, x)" by (cases p)
  have "extends (messages s) (messages (step e x s))" by (rule extends_step)
  moreover have "extends (messages (step e x s)) (messages (run acts (step e x s)))"
    by (rule Cons.IH)
  ultimately show ?case unfolding p by (auto intro: extends_trans)
qed

lemma active_step:
  "active_for a (messages (step e x s)) \<le> active_for a (messages s) + (if opens a x then 1 else 0)"
  using step_shape [of s e x a] in_place_active [of s "step e x s" a]
  by (auto simp add: appended_def active_for_def)

lemma active_run:
  "active_for a (messages (run acts s)) \<le> active_for a (messages s) + opened_for a acts"
proof (induction acts arbitrary: s)
  case Nil
  show ?case by (simp add: opened_for_def)
next
  case (Cons p acts)
  obtain e x where p: "p = (e, x)" by (cases p)
  have "active_for a (messages (run acts (step e x s)))
          \<le> active_for a (messages (step e x s)) + opened_for a acts"
    by (rule Cons.IH)
  also have "\<dots> \<le> active_for a (messages s) + (if opens a x then 1 else 0) + opened_for a acts"
    using active_step [of a e x s] by simp
  finally show ?case unfolding p by (auto simp add: opened_for_def)
qed

section \<open>Append-only timeline\<close>

text \<open>
  C5. Over any run of inbound events, reveal ticks, user sends and socket events (the
  thread replacement is not among the steps), the timeline never gets shorter and every
  message that was there keeps its position, by id: messages are only changed in place or
  appended at the end. A single step adds at most one message.
\<close>

theorem timeline_append_only:
  "length (messages s) \<le> length (messages (run acts s))
   \<and> map id_msg (take (length (messages s)) (messages (run acts s))) = map id_msg (messages s)
   \<and> length (messages s) \<le> length (messages (step e x s))
   \<and> length (messages (step e x s)) \<le> Suc (length (messages s))
   \<and> map id_msg (take (length (messages s)) (messages (step e x s))) = map id_msg (messages s)"
  using extends_run [of s acts] extends_step [of s e x] length_step [of e x s]
  by (simp add: extends_def)

text \<open>A reveal tick, a final answer and a late fragment on the revealing timeline.\<close>

theorem timeline_append_only_witness:
  "length (messages revealing)
     \<le> length (messages (run [(env1, Tick), (env1, Recv (FinalAnswer ''done'')),
                                (env2, Recv (Other (Some ''late'')))] revealing))
   \<and> length (messages (step env1 Tick revealing)) \<le> Suc (length (messages revealing))"
  using timeline_append_only [of revealing "[(env1, Tick), (env1, Recv (FinalAnswer ''done'')),
                                (env2, Recv (Other (Some ''late'')))]" env1 Tick]
  by blast

section \<open>Active messages per agent\<close>

text \<open>
  C4, as amended. From the empty timeline and after any run of steps, the number of
  messages authored by an agent that are waiting or streaming is at most the number of
  steps of the run that opened a slot for that agent (an \<open>agent_start\<close> passing the guard
  and mapping to the agent, or a \<open>task_delegated\<close> naming it). Nothing gates a further
  start: an \<open>agent_start\<close> that passes the guard, and every \<open>task_delegated\<close>, appends one
  more waiting message for its agent whatever the state of the earlier ones.
\<close>

theorem active_slots_bounded:
  "active_for a (messages (run acts initial)) \<le> opened_for a acts
   \<and> (shown_start g \<longrightarrow>
        messages (handle e (AgentStart g st) s) =
          messages s @ [last (messages (handle e (AgentStart g st) s))]
        \<and> agent (last (messages (handle e (AgentStart g st) s))) = Some (display_name g)
        \<and> waiting (last (messages (handle e (AgentStart g st) s)))
        \<and> active_for (display_name g) (messages (handle e (AgentStart g st) s))
            = Suc (active_for (display_name g) (messages s)))
   \<and> messages (handle e (TaskDelegated n t) s) =
          messages s @ [last (messages (handle e (TaskDelegated n t) s))]
   \<and> agent (last (messages (handle e (TaskDelegated n t) s))) = Some n
   \<and> waiting (last (messages (handle e (TaskDelegated n t) s)))
   \<and> active_for n (messages (handle e (TaskDelegated n t) s)) = Suc (active_for n (messages s))"
  using active_run [of a acts initial]
  by (simp add: shape_agent_start shape_task_delegated active_for_def active_def waiting_msg_def
      plain_def flag_defs initial_def)

lemma simplifier_shown:
  "shown_start ''Simplifier Agent''" "display_name ''Simplifier Agent'' = ''Nova''"
  by (simp_all add: shown_start_def specialAgents_def display_name_def agentNameMap_def
      truthy_str_def)

text \<open>The simplifier started twice: two slots opened, and the first start accepted.\<close>

theorem active_slots_bounded_witness:
  "shown_start ''Simplifier Agent''
   \<and> opened_for ''Nova'' twice_started = 2
   \<and> active_for ''Nova'' (messages (run twice_started initial)) \<le> 2
   \<and> active_for ''Nova'' (messages (handle env0 (AgentStart ''Simplifier Agent'' ''started'')
        initial)) = Suc (active_for ''Nova'' (messages initial))"
proof -
  have o: "opened_for ''Nova'' twice_started = 2"
    by (simp add: opened_for_def twice_started_def simplifier_shown)
  from active_slots_bounded [of "''Nova''" twice_started "''Simplifier Agent''" env0
      "''started''" initial] simplifier_shown o
  show ?thesis by simp
qed

text \<open>
  The property as the specification words it fails: after two \<open>agent_start\<close> events for the simplifier, two
  messages authored by \<open>Nova\<close> are waiting at once; the second start was accepted while the
  first message was still waiting.
\<close>

theorem single_active_slot_counterexample:
  "map (\<lambda>m. (agent m, waiting m)) (messages (run twice_started initial))
     = [(Some ''Nova'', True), (Some ''Nova'', True)]
   \<and> active_for ''Nova'' (messages (run twice_started initial)) = 2"
  by (simp add: twice_started_def initial_def handle.simps build_defs flag_defs simplifier_shown
      active_for_def active_def)

section \<open>Sending a prompt\<close>

lemma channel_open_cong:
  "sockets s' = sockets s \<Longrightarrow> wsRef s' = wsRef s \<Longrightarrow> channel_open s' = channel_open s"
  by (simp add: channel_open_def split: option.splits)

lemma sendMessage_unfold:
  "sendMessage e p s =
     (if channel_open s
      then ws_send (the (wsRef s)) p
             (push (plain (fst (generateUniqueId e ''user'' s)) True p)
                (snd (generateUniqueId e ''user'' s)))
      else connect (Some p)
             (push (plain (fst (generateUniqueId e ''user'' s)) True p)
                (snd (generateUniqueId e ''user'' s))))"
proof -
  have "channel_open (push (plain (fst (generateUniqueId e ''user'' s)) True p)
                (snd (generateUniqueId e ''user'' s))) = channel_open s"
    by (rule channel_open_cong) (simp_all add: push_def generateUniqueId_def)
  then show ?thesis
    by (simp add: sendMessage_def case_prod_beta Let_def push_def generateUniqueId_def)
qed

lemma sendMessage_open:
  assumes "channel_open s"
  shows "sockets (sendMessage e p s) =
           (sockets s)[the (wsRef s) := (sockets s ! the (wsRef s))
                          \<lparr>sent := sent (sockets s ! the (wsRef s)) @ [p]\<rparr>]"
    and "wsRef (sendMessage e p s) = wsRef s"
    and "status (sendMessage e p s) = status s"
  using assms
  by (simp_all add: sendMessage_unfold generateUniqueId_def push_def ws_send_def)

lemma sendMessage_closed:
  assumes "\<not> channel_open s"
  shows "sockets (sendMessage e p s) =
           sockets s @ [\<lparr>readyState = CONNECTING, initialPrompt = Some p, sent = []\<rparr>]"
    and "wsRef (sendMessage e p s) = Some (length (sockets s))"
    and "status (sendMessage e p s) = Connecting"
  using assms
  by (simp_all add: sendMessage_unfold generateUniqueId_def push_def connect_def)

lemma on_open_fresh:
  assumes "sockets t = ss @ [\<lparr>readyState = CONNECTING, initialPrompt = Some p, sent = []\<rparr>]"
    and "p \<noteq> []"
  shows "sockets (on_open (length ss) t)
           = ss @ [\<lparr>readyState = OPEN, initialPrompt = Some p, sent = [p]\<rparr>]"
    and "status (on_open (length ss) t) = StreamingStatus"
  using assms by (simp_all add: on_open_def ws_send_def truthy_str_def Let_def)

lemma queue_sendMessage: "streamQueue (sendMessage e p s) = streamQueue s"
  by (simp add: sendMessage_unfold generateUniqueId_def push_def ws_send_def connect_def)

text \<open>
  C10, as amended. For every prompt, \<open>sendMessage\<close> appends exactly one message to the end
  of the timeline: a user message whose content is the prompt and which is neither waiting,
  streaming nor error; the earlier messages and the reveal queue are untouched. When the
  channel in \<open>wsRef\<close> is open the prompt is sent on it at once. Otherwise a new connecting
  socket holding the prompt as its initial prompt becomes \<open>wsRef\<close>, the status becomes
  connecting, and, for a non-empty prompt, the opening of that socket sends the prompt on
  it, once, leaving the timeline as it is.
\<close>

theorem sendMessage_appends_and_transmits:
  "messages (sendMessage e p s) = messages s @ [last (messages (sendMessage e p s))]
   \<and> isUser (last (messages (sendMessage e p s)))
   \<and> content (last (messages (sendMessage e p s))) = p
   \<and> final (last (messages (sendMessage e p s)))
   \<and> streamQueue (sendMessage e p s) = streamQueue s
   \<and> (channel_open s \<longrightarrow>
        sockets (sendMessage e p s) =
           (sockets s)[the (wsRef s) := (sockets s ! the (wsRef s))
                          \<lparr>sent := sent (sockets s ! the (wsRef s)) @ [p]\<rparr>]
        \<and> wsRef (sendMessage e p s) = wsRef s
        \<and> status (sendMessage e p s) = status s)
   \<and> (\<not> channel_open s \<longrightarrow>
        sockets (sendMessage e p s) =
           sockets s @ [\<lparr>readyState = CONNECTING, initialPrompt = Some p, sent = []\<rparr>]
        \<and> wsRef (sendMessage e p s) = Some (length (sockets s))
        \<and> status (sendMessage e p s) = Connecting
        \<and> (p \<noteq> [] \<longrightarrow>
             sockets (on_open (length (sockets s)) (sendMessage e p s)) =
               sockets s @ [\<lparr>readyState = OPEN, initialPrompt = Some p, sent = [p]\<rparr>]
             \<and> messages (on_open (length (sockets s)) (sendMessage e p s))
                 = messages (sendMessage e p s)))"
proof -
  have m: "messages (sendMessage e p s) = messages s @ [last (messages (sendMessage e p s))]
   \<and> isUser (last (messages (sendMessage e p s)))
   \<and> content (last (messages (sendMessage e p s))) = p
   \<and> final (last (messages (sendMessage e p s)))"
    by (simp add: messages_sendMessage plain_def flag_defs)
  have q: "streamQueue (sendMessage e p s) = streamQueue s"
    by (rule queue_sendMessage)
  have c: "sockets (on_open (length (sockets s)) (sendMessage e p s)) =
               sockets s @ [\<lparr>readyState = OPEN, initialPrompt = Some p, sent = [p]\<rparr>]
             \<and> messages (on_open (length (sockets s)) (sendMessage e p s))
                 = messages (sendMessage e p s)"
    if "\<not> channel_open s" "p \<noteq> []"
    using on_open_fresh [OF sendMessage_closed(1) [OF that(1)] that(2)]
    by (simp add: messages_on_open)
  show ?thesis using m q c sendMessage_open [of s e p] sendMessage_closed [of s e p] by blast
qed

text \<open>A first prompt on a fresh hook, its socket opening, then a second prompt on the open
  channel.\<close>

theorem sendMessage_appends_and_transmits_witness:
  "\<not> channel_open initial \<and> channel_open connected
   \<and> sockets connected = [\<lparr>readyState = OPEN, initialPrompt = Some ''first question'',
                             sent = [''first question'']\<rparr>]
   \<and> sockets (sendMessage env1 ''second'' connected)
       = [\<lparr>readyState = OPEN, initialPrompt = Some ''first question'',
            sent = [''first question'', ''second'']\<rparr>]
   \<and> messages (sendMessage env1 ''second'' connected)
       = messages connected @ [last (messages (sendMessage env1 ''second'' connected))]
   \<and> content (last (messages (sendMessage env1 ''second'' connected))) = ''second''
   \<and> isUser (last (messages (sendMessage env1 ''second'' connected)))"
proof -
  have a: "\<not> channel_open initial" by (simp add: initial_def channel_open_def)
  have s0: "sockets initial = []" by (simp add: initial_def)
  have n: "''first question'' \<noteq> []" by simp
  from sendMessage_appends_and_transmits [of env0 "''first question''" initial] a n s0
  have b: "sockets connected = [\<lparr>readyState = OPEN, initialPrompt = Some ''first question'',
                                  sent = [''first question'']\<rparr>]"
    and w: "wsRef (sendMessage env0 ''first question'' initial) = Some 0"
    unfolding connected_def by simp_all
  have r: "wsRef connected = Some 0"
    using w by (simp add: connected_def on_open_def ws_send_def Let_def)
  have c: "channel_open connected" by (simp add: channel_open_def r b)
  from sendMessage_appends_and_transmits [of env1 "''second''" connected] c
  have "sockets (sendMessage env1 ''second'' connected)
       = [\<lparr>readyState = OPEN, initialPrompt = Some ''first question'',
            sent = [''first question'', ''second'']\<rparr>]"
    and "messages (sendMessage env1 ''second'' connected)
       = messages connected @ [last (messages (sendMessage env1 ''second'' connected))]"
    and "content (last (messages (sendMessage env1 ''second'' connected))) = ''second''"
    and "isUser (last (messages (sendMessage env1 ''second'' connected)))"
    by (simp_all add: r b)
  then show ?thesis using a b c by blast
qed

text \<open>
  The property as the specification words it fails for the empty prompt on a hook with no open channel: a socket
  is created with the empty initial prompt, and when it opens nothing is sent on it.
\<close>

theorem empty_prompt_counterexample:
  "\<not> channel_open initial
   \<and> content (last (messages (sendMessage env0 [] initial))) = []
   \<and> sockets (sendMessage env0 [] initial)
        = [\<lparr>readyState = CONNECTING, initialPrompt = Some [], sent = []\<rparr>]
   \<and> sockets (on_open 0 (sendMessage env0 [] initial))
        = [\<lparr>readyState = OPEN, initialPrompt = Some [], sent = []\<rparr>]"
  by (simp add: initial_def channel_open_def sendMessage_unfold generateUniqueId_def push_def
      plain_def Let_def connect_def on_open_def truthy_str_def)

section \<open>The history client\<close>

lemma apiClient_request:
  assumes "truthy_str base" "truthy_str (session_user_id ss)"
  shows "fst (apiClient base fetch ep m ss d)
          = [\<lparr>url = the base @ ep, http_method = m,
               headers = [(''Content-Type'', ''application/json''),
                          (''X-User-Id'', the (session_user_id ss))],
               body = d\<rparr>]"
  using assms by (simp add: apiClient_def Let_def)

lemma apiClient_never_silent:
  "fst (apiClient base fetch ep m ss d) = [] \<Longrightarrow> isl (snd (apiClient base fetch ep m ss d))"
  by (auto simp add: apiClient_def Let_def split: if_splits)

text \<open>
  C9. A call of \<open>apiClient\<close> with no (or an empty) base endpoint, or with a session that
  carries no user id, issues no request and throws: the base endpoint's error first, the
  session's otherwise. With both present it issues exactly one request, to the base
  endpoint followed by the path, whose \<open>X-User-Id\<close> header is the session's user id. The
  conversation query resolves to the empty conversation, without any request, when there is
  no session or no thread; with a session and a thread it is the call of \<open>apiClient\<close> on
  \<open>/conversation/<thread>\<close>, so that resolving without a request happens in that one case
  only.
\<close>

theorem history_client_preconditions:
  "(\<not> truthy_str base \<or> \<not> truthy_str (session_user_id ss) \<longrightarrow>
      fst (apiClient base fetch ep m ss d) = []
      \<and> snd (apiClient base fetch ep m ss d)
          = Inl (if \<not> truthy_str base then ''AGENT_SERVER_BASE_URL is not defined.''
                 else ''User session is not available.''))
   \<and> (truthy_str base \<and> truthy_str (session_user_id ss) \<longrightarrow>
      length (fst (apiClient base fetch ep m ss d)) = 1
      \<and> url (hd (fst (apiClient base fetch ep m ss d))) = the base @ ep
      \<and> map_of (headers (hd (fst (apiClient base fetch ep m ss d)))) ''X-User-Id''
          = session_user_id ss)
   \<and> (ss = None \<or> \<not> truthy_str tid \<longrightarrow>
      queryFn base fetch' ss tid = ([], Inr \<lparr>thread_id = [], messages_conv = []\<rparr>))
   \<and> (ss \<noteq> None \<and> truthy_str tid \<longrightarrow>
      queryFn base fetch' ss tid
        = apiClient base fetch' (''/conversation/'' @ the tid) GET ss None)
   \<and> ((fst (queryFn base fetch' ss tid) = [] \<and> isl (snd (queryFn base fetch' ss tid)) = False)
        = (ss = None \<or> \<not> truthy_str tid))"
proof -
  have a: "fst (apiClient base fetch ep m ss d) = []
      \<and> snd (apiClient base fetch ep m ss d)
          = Inl (if \<not> truthy_str base then ''AGENT_SERVER_BASE_URL is not defined.''
                 else ''User session is not available.'')"
    if "\<not> truthy_str base \<or> \<not> truthy_str (session_user_id ss)"
    using that by (auto simp add: apiClient_def)
  have b: "length (fst (apiClient base fetch ep m ss d)) = 1
      \<and> url (hd (fst (apiClient base fetch ep m ss d))) = the base @ ep
      \<and> map_of (headers (hd (fst (apiClient base fetch ep m ss d)))) ''X-User-Id''
          = session_user_id ss"
    if "truthy_str base \<and> truthy_str (session_user_id ss)"
    using that by (auto simp add: apiClient_request truthy_str_def split: option.splits)
  have c: "queryFn base fetch' ss tid = ([], Inr \<lparr>thread_id = [], messages_conv = []\<rparr>)"
    if "ss = None \<or> \<not> truthy_str tid"
    using that by (auto simp add: queryFn_def)
  have d: "queryFn base fetch' ss tid
        = apiClient base fetch' (''/conversation/'' @ the tid) GET ss None"
    if "ss \<noteq> None \<and> truthy_str tid"
    using that by (auto simp add: queryFn_def)
  have e: "(fst (queryFn base fetch' ss tid) = [] \<and> isl (snd (queryFn base fetch' ss tid)) = False)
        = (ss = None \<or> \<not> truthy_str tid)"
  proof (cases "ss = None \<or> \<not> truthy_str tid")
    case True
    then show ?thesis using c by simp
  next
    case False
    then have q: "queryFn base fetch' ss tid
        = apiClient base fetch' (''/conversation/'' @ the tid) GET ss None"
      using d by simp
    show ?thesis
      unfolding q using False apiClient_never_silent by blast
  qed
  show ?thesis using a b c d e by blast
qed

lemma sessions:
  "session_user_id alice = Some ''u42''" "session_user_id anonymous = None"
  "truthy_str (Some ''http://h'')" "truthy_str (Some ''t1'')" "truthy_str (Some ''u42'')"
  "\<not> truthy_str None" "alice \<noteq> None" "anonymous \<noteq> None"
  by (simp_all add: session_user_id_def alice_def anonymous_def truthy_str_def)

text \<open>
  A signed-in user with a thread, a session without a user, a missing base endpoint, and a
  signed-in user with no thread selected.
\<close>

theorem history_client_preconditions_witness:
  "map_of (headers (hd (fst (apiClient (Some ''http://h'') server ''/conversation/t1'' GET
       alice None)))) ''X-User-Id'' = Some ''u42''
   \<and> queryFn (Some ''http://h'') server alice (Some ''t1'')
       = apiClient (Some ''http://h'') server (''/conversation/'' @ ''t1'') GET alice None
   \<and> apiClient (Some ''http://h'') server ''/conversation/t1'' GET anonymous None
       = ([], Inl ''User session is not available.'')
   \<and> apiClient None server ''/conversation/t1'' GET alice None
       = ([], Inl ''AGENT_SERVER_BASE_URL is not defined.'')
   \<and> queryFn (Some ''http://h'') server alice None
       = ([], Inr \<lparr>thread_id = [], messages_conv = []\<rparr>)"
proof -
  from history_client_preconditions [of "Some ''http://h''" alice server "''/conversation/t1''"
      GET None "Some ''t1''" server] sessions
  have a: "map_of (headers (hd (fst (apiClient (Some ''http://h'') server ''/conversation/t1'' GET
       alice None)))) ''X-User-Id'' = Some ''u42''"
    and b: "queryFn (Some ''http://h'') server alice (Some ''t1'')
       = apiClient (Some ''http://h'') server (''/conversation/'' @ ''t1'') GET alice None"
    by simp_all
  from history_client_preconditions [of "Some ''http://h''" anonymous server
      "''/conversation/t1''" GET None None server] sessions
  have c: "apiClient (Some ''http://h'') server ''/conversation/t1'' GET anonymous None
       = ([], Inl ''User session is not available.'')"
    by (simp add: prod_eq_iff)
  from history_client_preconditions [of None alice server "''/conversation/t1''" GET None
      None server] sessions
  have d: "apiClient None server ''/conversation/t1'' GET alice None
       = ([], Inl ''AGENT_SERVER_BASE_URL is not defined.'')"
    and e: "queryFn None server alice None
       = ([], Inr \<lparr>thread_id = [], messages_conv = []\<rparr>)"
    by (simp_all add: prod_eq_iff)
  from history_client_preconditions [of "Some ''http://h''" alice server "''/conversation/t1''"
      GET None None server] sessions
  have f: "queryFn (Some ''http://h'') server alice None
       = ([], Inr \<lparr>thread_id = [], messages_conv = []\<rparr>)"
    by simp
  from a b c d f show ?thesis by blast
qed

end
